theory Spec2Isabelle
  imports Main "HOL-Library.Sublist"
begin

section \<open>Python strings\<close>

text \<open>
  A Python 3 \<open>str\<close> is a sequence of Unicode code points, and \<open>len\<close>, indexing,
  \<open>split\<close>, \<open>in\<close> and the \<open>re\<close> module all work on code points. A string is
  therefore a list of natural numbers; \<open>str\<close> turns an ASCII literal into one.
\<close>

type_synonym codepoint = nat
type_synonym pystr = "codepoint list"

definition str :: "string \<Rightarrow> pystr" where
  "str s = map (of_char :: char \<Rightarrow> nat) s"

text \<open>
  \<open>\s\<close> in a \<open>str\<close> pattern is \<open>Py_UNICODE_ISSPACE\<close>: tab to carriage return,
  the separators FS, GS, RS, US, the space, NEL, the no-break space and the Unicode
  space separators.
\<close>

definition is_space :: "codepoint \<Rightarrow> bool" where
  "is_space c \<longleftrightarrow>
     (9 \<le> c \<and> c \<le> 13) \<or> (28 \<le> c \<and> c \<le> 32) \<or> c = 133 \<or> c = 160 \<or> c = 5760 \<or>
     (8192 \<le> c \<and> c \<le> 8202) \<or> c = 8232 \<or> c = 8233 \<or> c = 8239 \<or> c = 8287 \<or> c = 12288"

text \<open>\<open>.\<close> without the DOTALL flag: every code point but the newline.\<close>

definition is_dot :: "codepoint \<Rightarrow> bool" where
  "is_dot c \<longleftrightarrow> c \<noteq> 10"

text \<open>\<open>css_content.split('\n')\<close>: one more piece than there are newlines.\<close>

fun str_split :: "pystr \<Rightarrow> pystr list" where
  "str_split [] = [[]]"
| "str_split (c # cs) =
     (if c = 10 then [] # str_split cs
      else (case str_split cs of
              l # ls \<Rightarrow> (c # l) # ls
            | [] \<Rightarrow> [[c]]))"

text \<open>\<open>'\n'.join(modified_lines)\<close>.\<close>

fun str_join :: "pystr list \<Rightarrow> pystr" where
  "str_join [] = []"
| "str_join [l] = l"
| "str_join (l # ls) = l @ 10 # str_join ls"

text \<open>\<open>sub in s\<close>: \<open>sub\<close> occurs in \<open>s\<close> as a contiguous run.\<close>

fun contains :: "pystr \<Rightarrow> pystr \<Rightarrow> bool" where
  "contains sub [] = (sub = [])"
| "contains sub (c # cs) = (prefix sub (c # cs) \<or> contains sub cs)"

section \<open>The regular expression\<close>

text \<open>
  \<open>re.match(r'^(\s+)backdrop-filter:\s*(.*?);$', line)\<close> is a backtracking search
  anchored at the start of \<open>line\<close>. Each repetition offers its lengths in the order
  the engine tries them (a greedy one from the longest run down to its minimum, a lazy
  one from zero up), and the first combination for which the rest of the pattern
  succeeds gives the two groups.
\<close>

fun first_some :: "('a \<Rightarrow> 'b option) \<Rightarrow> 'a list \<Rightarrow> 'b option" where
  "first_some f [] = None"
| "first_some f (x # xs) = (case f x of Some y \<Rightarrow> Some y | None \<Rightarrow> first_some f xs)"

definition greedy :: "(codepoint \<Rightarrow> bool) \<Rightarrow> nat \<Rightarrow> pystr \<Rightarrow> nat list" where
  "greedy P m s = rev [m..<Suc (length (takeWhile P s))]"

definition lazy :: "(codepoint \<Rightarrow> bool) \<Rightarrow> pystr \<Rightarrow> nat list" where
  "lazy P s = [0..<Suc (length (takeWhile P s))]"

text \<open>
  \<open>$\<close> without the MULTILINE flag: at the end of the string, or just before a
  newline that ends the string.
\<close>

definition at_end :: "pystr \<Rightarrow> bool" where
  "at_end s \<longleftrightarrow> s = [] \<or> s = [10]"

text \<open>The tail \<open>;$\<close>, once \<open>(.*?)\<close> has taken the first \<open>m\<close> code points of \<open>s\<close>.\<close>

definition match_end :: "pystr \<Rightarrow> pystr \<Rightarrow> nat \<Rightarrow> (pystr \<times> pystr) option" where
  "match_end indent s m =
     (case drop m s of
        [] \<Rightarrow> None
      | c # r \<Rightarrow> if c = 59 \<and> at_end r then Some (indent, take m s) else None)"

text \<open>\<open>(.*?);$\<close>, once \<open>\s*\<close> has taken the first \<open>j\<close> code points of \<open>s\<close>.\<close>

definition match_value :: "pystr \<Rightarrow> pystr \<Rightarrow> nat \<Rightarrow> (pystr \<times> pystr) option" where
  "match_value indent s j =
     first_some (match_end indent (drop j s)) (lazy is_dot (drop j s))"

text \<open>
  \<open>backdrop-filter:\s*(.*?);$\<close>, once \<open>(\s+)\<close> has taken the first \<open>k\<close> code
  points of the line.
\<close>

definition match_indent :: "pystr \<Rightarrow> nat \<Rightarrow> (pystr \<times> pystr) option" where
  "match_indent line k =
     (let indent = take k line; r = drop k line in
      if prefix (str ''backdrop-filter:'') r then
        let s = drop (length (str ''backdrop-filter:'')) r in
        first_some (match_value indent s) (greedy is_space 0 s)
      else None)"

definition pattern_match :: "pystr \<Rightarrow> (pystr \<times> pystr) option" where
  "pattern_match line = first_some (match_indent line) (greedy is_space 1 line)"

section \<open>The line patcher\<close>

text \<open>
  One pass of the \<open>for i, line in enumerate(lines)\<close> loop: \<open>modified_lines\<close> is the
  list built so far, and the body appends to it.
\<close>

definition loop_body :: "pystr list \<Rightarrow> nat \<Rightarrow> pystr list \<Rightarrow> pystr list" where
  "loop_body lines i modified_lines =
     (let line = lines ! i in
      case pattern_match line of
        Some (indent, val) \<Rightarrow>
          let prev_line = (if i > 0 then lines ! (i - 1) else []);
              webkit_pattern = indent @ str ''-webkit-backdrop-filter: '' @ val @ str '';''
          in if contains webkit_pattern prev_line
             then modified_lines @ [line]
             else modified_lines
                    @ [indent @ str ''-webkit-backdrop-filter: '' @ val @ str '';'']
                    @ [line]
      | None \<Rightarrow> modified_lines @ [line])"

definition fix_backdrop_filter :: "pystr \<Rightarrow> pystr" where
  "fix_backdrop_filter css_content =
     (let lines = str_split css_content;
          modified_lines = fold (loop_body lines) [0..<length lines] []
      in str_join modified_lines)"

text \<open>The f-string \<open>f"{indent}-webkit-backdrop-filter: {value};"\<close>, as the theorems write it.\<close>

abbreviation prefixed_line :: "pystr \<Rightarrow> pystr \<Rightarrow> pystr" where
  "prefixed_line indent val \<equiv> indent @ str ''-webkit-backdrop-filter: '' @ val @ str '';''"

text \<open>
  The same loop read line by line, for the proofs: \<open>chunk\<close> is what one pass appends,
  given the line before, and \<open>scan\<close> carries that line along instead of indexing.
  \<open>modified_lines_scan\<close> below shows that the loop computes \<open>scan\<close>.
\<close>

definition chunk :: "pystr \<Rightarrow> pystr \<Rightarrow> pystr list" where
  "chunk prev_line line =
     (case pattern_match line of
        Some (indent, val) \<Rightarrow>
          if contains (indent @ str ''-webkit-backdrop-filter: '' @ val @ str '';'') prev_line
          then [line]
          else [indent @ str ''-webkit-backdrop-filter: '' @ val @ str '';'', line]
      | None \<Rightarrow> [line])"

fun scan :: "pystr \<Rightarrow> pystr list \<Rightarrow> pystr list" where
  "scan prev_line [] = []"
| "scan prev_line (line # rest) = chunk prev_line line @ scan line rest"

section \<open>The file driver\<close>

text \<open>
  \<open>main\<close> reads the file, patches the text, writes it back and prints the success
  notice, all inside one \<open>try\<close>; the handler \<open>except Exception as e\<close> prints the
  error notice, and nothing guards that second \<open>print\<close>. The surroundings are the
  parameter \<open>world\<close>:
  \<^item> \<open>file_read\<close>: what opening and reading the file gives, the decoded text or the
    exception raised;
  \<^item> \<open>file_write\<close>: the exception that opening and writing the file with a given text
    raises, if any;
  \<^item> \<open>print_raises\<close>: the exception that \<open>print\<close> raises for a given text, if any
    (a standard output that cannot encode the text, or that is closed); a \<open>print\<close>
    that raises adds no line;
  \<^item> \<open>flush_fails\<close>: whether flushing the standard output fails when the interpreter
    exits.

  An exception is an instance of \<open>Exception\<close>, as the \<open>OSError\<close>,
  \<open>UnicodeDecodeError\<close> and \<open>UnicodeEncodeError\<close> of these steps are, and carries
  \<open>str(e)\<close>. Each \<open>print\<close> call that returns is one entry of \<open>stdout\<close>.
\<close>

datatype exn = Exception (message: pystr)

record world =
  file_read :: "exn + pystr"
  file_write :: "pystr \<Rightarrow> exn option"
  print_raises :: "pystr \<Rightarrow> exn option"
  flush_fails :: bool

record outcome =
  stdout :: "pystr list"
  raised :: "exn option"

definition success_notice :: pystr where
  "success_notice =
     [9989, 32, 25152, 26377, 32] @ str ''backdrop-filter''
       @ [32, 20860, 23481, 24615, 38382, 39064, 24050, 20462, 22797, 33]"

definition error_notice :: "exn \<Rightarrow> pystr" where
  "error_notice e = [10060, 32, 38169, 35823, 58, 32] @ message e"

text \<open>
  The body of the \<open>try\<close>: the lines it printed, or the first exception raised in it.
  The success \<open>print\<close> is its last statement, so its failure is raised here too.
\<close>

definition try_block :: "world \<Rightarrow> exn + pystr list" where
  "try_block w =
     (case file_read w of
        Inl e \<Rightarrow> Inl e
      | Inr css_content \<Rightarrow>
          let fixed_content = fix_backdrop_filter css_content in
          (case file_write w fixed_content of
             Some e \<Rightarrow> Inl e
           | None \<Rightarrow>
               (case print_raises w success_notice of
                  Some e \<Rightarrow> Inl e
                | None \<Rightarrow> Inr [success_notice])))"

text \<open>
  \<open>main\<close>: an exception of the body is caught and its notice printed; an exception
  of that \<open>print\<close> leaves \<open>main\<close>.
\<close>

definition main :: "world \<Rightarrow> outcome" where
  "main w =
     (case try_block w of
        Inr printed \<Rightarrow> \<lparr>stdout = printed, raised = None\<rparr>
      | Inl e \<Rightarrow>
          (case print_raises w (error_notice e) of
             None \<Rightarrow> \<lparr>stdout = [error_notice e], raised = None\<rparr>
           | Some e' \<Rightarrow> \<lparr>stdout = [], raised = Some e'\<rparr>))"

text \<open>
  The status of the process that ran \<open>main()\<close> as a script: 120 when the flush of the
  standard output at exit fails, otherwise 1 when an exception left \<open>main\<close>, otherwise 0.
\<close>

definition exit_status :: "world \<Rightarrow> outcome \<Rightarrow> nat" where
  "exit_status w r =
     (if flush_fails w then 120 else (case raised r of None \<Rightarrow> 0 | Some e \<Rightarrow> 1))"

text \<open>
  A world for the examples: the file is missing, and the standard output encodes ASCII
  only, so that \<open>print\<close> raises for any text with a code point above 127.
\<close>

definition missing_file_ascii_stdout :: world where
  "missing_file_ascii_stdout =
     \<lparr>file_read = Inl (Exception (str ''[Errno 2] No such file or directory'')),
      file_write = (\<lambda>content. None),
      print_raises = (\<lambda>text. if list_all (\<lambda>c. c < 128) text then None
                              else Some (Exception (str ''ordinal not in range(128)''))),
      flush_fails = False\<rparr>"

section \<open>Searching, splitting and joining\<close>

lemma first_some_None_iff: "first_some f xs = None \<longleftrightarrow> (\<forall>x\<in>set xs. f x = None)"
  by (induction xs) (auto split: option.splits)

lemma first_some_SomeD: "first_some f xs = Some y \<Longrightarrow> \<exists>x\<in>set xs. f x = Some y"
  by (induction xs) (auto split: option.splits)

lemma first_some_hd: "f x = Some y \<Longrightarrow> first_some f (x # xs) = Some y"
  by simp

lemma first_some_only:
  "x \<in> set xs \<Longrightarrow> (\<And>x'. x' \<in> set xs \<Longrightarrow> x' \<noteq> x \<Longrightarrow> f x' = None) \<Longrightarrow> first_some f xs = f x"
proof (induction xs)
  case Nil
  then show ?case by simp
next
  case (Cons a xs)
  show ?case
  proof (cases "a = x")
    case True
    have "first_some f xs = None \<or> first_some f xs = f x"
    proof (cases "first_some f xs")
      case None
      then show ?thesis by simp
    next
      case (Some y)
      then obtain z where z: "z \<in> set xs" "f z = Some y"
        using first_some_SomeD by fastforce
      then have "z = x" using Cons.prems(2)[of z] by auto
      with z Some show ?thesis by simp
    qed
    with True show ?thesis by (auto split: option.splits)
  next
    case False
    with Cons show ?thesis by (auto split: option.splits)
  qed
qed

lemma str_split_not_Nil: "str_split s \<noteq> []"
  by (induction s) (auto split: list.splits)

lemma str_split_no_newline: "l \<in> set (str_split s) \<Longrightarrow> 10 \<notin> set l"
proof (induction s arbitrary: l)
  case Nil
  then show ?case by simp
next
  case (Cons c cs)
  then show ?case
    by (cases "str_split cs") (auto split: if_splits)
qed

lemma str_join_Cons: "ls \<noteq> [] \<Longrightarrow> str_join (l # ls) = l @ 10 # str_join ls"
  by (cases ls) simp_all

lemma str_split_append_newline:
  "10 \<notin> set l \<Longrightarrow> str_split (l @ 10 # s) = l # str_split s"
  by (induction l) auto

lemma str_split_line: "10 \<notin> set l \<Longrightarrow> str_split l = [l]"
  by (induction l) auto

lemma str_split_join:
  "ls \<noteq> [] \<Longrightarrow> (\<And>l. l \<in> set ls \<Longrightarrow> 10 \<notin> set l) \<Longrightarrow> str_split (str_join ls) = ls"
proof (induction ls)
  case Nil
  then show ?case by simp
next
  case (Cons l ls)
  show ?case
  proof (cases "ls = []")
    case True
    with Cons.prems show ?thesis by (simp add: str_split_line)
  next
    case False
    with Cons show ?thesis
      by (simp add: str_join_Cons str_split_append_newline)
  qed
qed

lemma str_join_split: "str_join (str_split s) = s"
proof (induction s)
  case Nil
  then show ?case by simp
next
  case (Cons c cs)
  show ?case
  proof (cases "str_split cs")
    case Nil
    then show ?thesis using str_split_not_Nil by blast
  next
    case (Cons l ls)
    with Cons.IH show ?thesis
      by (cases ls) (auto simp: str_join_Cons str_split_not_Nil)
  qed
qed

lemma contains_iff: "contains sub s \<longleftrightarrow> (\<exists>p q. s = p @ sub @ q)"
proof (induction s)
  case Nil
  then show ?case by auto
next
  case (Cons c cs)
  show ?case
  proof
    assume "contains sub (c # cs)"
    then consider "prefix sub (c # cs)" | "contains sub cs" by auto
    then show "\<exists>p q. c # cs = p @ sub @ q"
    proof cases
      case 1
      then obtain q where "c # cs = sub @ q" by (auto simp: prefix_def)
      then have "c # cs = [] @ sub @ q" by simp
      then show ?thesis by blast
    next
      case 2
      with Cons.IH obtain p q where "cs = p @ sub @ q" by blast
      then have "c # cs = (c # p) @ sub @ q" by simp
      then show ?thesis by blast
    qed
  next
    assume "\<exists>p q. c # cs = p @ sub @ q"
    then obtain p q where pq: "c # cs = p @ sub @ q" by blast
    show "contains sub (c # cs)"
    proof (cases p)
      case Nil
      with pq have "prefix sub (c # cs)" by (simp add: prefix_def)
      then show ?thesis by simp
    next
      case (Cons a p')
      with pq have "cs = p' @ sub @ q" by simp
      with Cons.IH have "contains sub cs" by blast
      then show ?thesis by simp
    qed
  qed
qed

lemma contains_self: "contains s s"
  using contains_iff[of s s] by (metis append_Nil append_Nil2)

section \<open>What the pattern matches\<close>

lemma lit_unfold:
  "str ''backdrop-filter:'' = [98, 97, 99, 107, 100, 114, 111, 112, 45, 102, 105, 108, 116, 101, 114, 58]"
  by (simp add: str_def)

lemma webkit_unfold:
  "str ''-webkit-backdrop-filter: '' =
     [45, 119, 101, 98, 107, 105, 116, 45, 98, 97, 99, 107, 100, 114, 111, 112, 45, 102, 105, 108,
      116, 101, 114, 58, 32]"
  by (simp add: str_def)

lemma semicolon_unfold: "str '';'' = [59]"
  by (simp add: str_def)

lemma not_space_b: "\<not> is_space 98" by (simp add: is_space_def)
lemma not_space_dash: "\<not> is_space 45" by (simp add: is_space_def)
lemma not_space_semicolon: "\<not> is_space 59" by (simp add: is_space_def)

lemma take_run:
  assumes "n \<le> length (takeWhile P xs)" and "c \<in> set (take n xs)"
  shows "P c"
proof -
  have "take n xs = take n (takeWhile P xs @ dropWhile P xs)" by simp
  also have "\<dots> = take n (takeWhile P xs)" using assms(1) by (simp del: takeWhile_dropWhile_id)
  finally have "c \<in> set (takeWhile P xs)" using assms(2) by (auto dest: in_set_takeD)
  then show ?thesis by (rule set_takeWhileD[THEN conjunct2])
qed

lemma greedy_set: "k \<in> set (greedy P m s) \<longleftrightarrow> m \<le> k \<and> k \<le> length (takeWhile P s)"
  by (auto simp: greedy_def)

lemma lazy_set: "k \<in> set (lazy P s) \<longleftrightarrow> k \<le> length (takeWhile P s)"
  by (auto simp: lazy_def)

lemma greedy_Cons:
  "m \<le> length (takeWhile P s) \<Longrightarrow>
     greedy P m s = length (takeWhile P s) # rev [m..<length (takeWhile P s)]"
  by (simp add: greedy_def)

lemma match_end_SomeD:
  "match_end indent s m = Some (ind, v) \<Longrightarrow>
     ind = indent \<and> v = take m s \<and> (\<exists>r. drop m s = 59 # r \<and> at_end r)"
  by (auto simp: match_end_def split: list.splits if_splits)

lemma match_value_SomeD:
  assumes "match_value indent s j = Some (ind, v)"
  shows "\<exists>r. ind = indent \<and> drop j s = v @ 59 # r \<and> at_end r \<and> (\<forall>c\<in>set v. is_dot c)"
proof -
  from assms obtain m where m: "m \<le> length (takeWhile is_dot (drop j s))"
    and e: "match_end indent (drop j s) m = Some (ind, v)"
    unfolding match_value_def by (auto dest!: first_some_SomeD simp: lazy_set)
  from match_end_SomeD[OF e] obtain r where
    r: "ind = indent" "v = take m (drop j s)" "drop m (drop j s) = 59 # r" "at_end r"
    by blast
  have "drop j s = take m (drop j s) @ drop m (drop j s)"
    by (rule append_take_drop_id[symmetric])
  with r have "drop j s = v @ 59 # r" by simp
  moreover have "\<forall>c\<in>set v. is_dot c" unfolding r(2) using take_run[OF m] by blast
  ultimately show ?thesis using r by blast
qed

lemma match_indent_SomeD:
  assumes "match_indent line k = Some (ind, v)"
  shows "\<exists>ws r. ind = take k line \<and> drop k line = str ''backdrop-filter:'' @ ws @ v @ 59 # r \<and>
           at_end r \<and> (\<forall>c\<in>set ws. is_space c) \<and> (\<forall>c\<in>set v. is_dot c)"
proof -
  define s where "s = drop (length (str ''backdrop-filter:'')) (drop k line)"
  from assms have p: "prefix (str ''backdrop-filter:'') (drop k line)"
    and f: "first_some (match_value (take k line) s) (greedy is_space 0 s) = Some (ind, v)"
    unfolding match_indent_def s_def by (auto simp: Let_def split: if_splits)
  from p have l: "drop k line = str ''backdrop-filter:'' @ s"
    unfolding s_def by (auto simp del: drop_drop simp: prefix_def)
  from f obtain j where j: "j \<le> length (takeWhile is_space s)"
    and mv: "match_value (take k line) s j = Some (ind, v)"
    by (auto dest!: first_some_SomeD simp: greedy_set)
  from match_value_SomeD[OF mv] obtain r where
    r: "ind = take k line" "drop j s = v @ 59 # r" "at_end r" "\<forall>c\<in>set v. is_dot c"
    by blast
  have "s = take j s @ drop j s" by (rule append_take_drop_id[symmetric])
  with r(2) have "s = take j s @ v @ 59 # r" by simp
  with l have "drop k line = str ''backdrop-filter:'' @ take j s @ v @ 59 # r" by simp
  moreover have "\<forall>c\<in>set (take j s). is_space c" using take_run[OF j] by blast
  ultimately show ?thesis using r by blast
qed

lemma pattern_match_shape:
  assumes "pattern_match line = Some (ind, v)"
  shows "\<exists>ws r. line = ind @ str ''backdrop-filter:'' @ ws @ v @ 59 # r \<and> at_end r \<and>
           ind \<noteq> [] \<and> (\<forall>c\<in>set ind. is_space c) \<and> (\<forall>c\<in>set ws. is_space c) \<and>
           (\<forall>c\<in>set v. is_dot c)"
proof -
  from assms obtain k where k: "1 \<le> k" "k \<le> length (takeWhile is_space line)"
    and mi: "match_indent line k = Some (ind, v)"
    unfolding pattern_match_def by (auto dest!: first_some_SomeD simp: greedy_set)
  from match_indent_SomeD[OF mi] obtain ws r where
    r: "ind = take k line" "drop k line = str ''backdrop-filter:'' @ ws @ v @ 59 # r"
       "at_end r" "\<forall>c\<in>set ws. is_space c" "\<forall>c\<in>set v. is_dot c"
    by blast
  have "line = take k line @ drop k line" by (rule append_take_drop_id[symmetric])
  with r have l: "line = ind @ str ''backdrop-filter:'' @ ws @ v @ 59 # r" by simp
  have "length (takeWhile is_space line) \<le> length line" by (rule length_takeWhile_le)
  with k have n: "ind \<noteq> []" unfolding r(1) by auto
  have "\<forall>c\<in>set ind. is_space c" unfolding r(1) using take_run[OF k(2)] by blast
  with l n r show ?thesis by blast
qed

lemma pattern_match_indent:
  assumes "pattern_match line = Some (ind, v)"
  shows "ind = takeWhile is_space line"
proof -
  from pattern_match_shape[OF assms] obtain ws r where
    l: "line = ind @ str ''backdrop-filter:'' @ ws @ v @ 59 # r" and s: "\<forall>c\<in>set ind. is_space c"
    by blast
  from l have "line = ind @ 98 # tl (str ''backdrop-filter:'') @ ws @ v @ 59 # r"
    by (simp add: lit_unfold)
  moreover from s
  have "takeWhile is_space (ind @ 98 # tl (str ''backdrop-filter:'') @ ws @ v @ 59 # r) = ind"
    by (simp add: takeWhile_append2 not_space_b)
  ultimately show ?thesis by simp
qed

lemma at_end_no_newline: "at_end r \<Longrightarrow> 10 \<notin> set r \<Longrightarrow> r = []"
  by (auto simp: at_end_def)

lemma pattern_match_line:
  assumes "pattern_match line = Some (ind, v)" and "10 \<notin> set line"
  shows "\<exists>ws. line = ind @ str ''backdrop-filter:'' @ ws @ v @ str '';'' \<and>
           (\<forall>c\<in>set ws. is_space c)"
proof -
  from pattern_match_shape[OF assms(1)] obtain ws r where
    l: "line = ind @ str ''backdrop-filter:'' @ ws @ v @ 59 # r" and e: "at_end r"
    and s: "\<forall>c\<in>set ws. is_space c"
    by blast
  from l assms(2) have "10 \<notin> set r" by auto
  with e have "r = []" by (rule at_end_no_newline)
  with l s show ?thesis by (auto simp: semicolon_unfold)
qed

lemma pattern_match_groups_no_newline:
  assumes "pattern_match line = Some (ind, v)" and "10 \<notin> set line"
  shows "10 \<notin> set ind \<and> 10 \<notin> set v"
proof -
  from pattern_match_shape[OF assms(1)] obtain ws r where
    "line = ind @ str ''backdrop-filter:'' @ ws @ v @ 59 # r" by blast
  with assms(2) show ?thesis by auto
qed

lemma pattern_match_last:
  assumes "pattern_match line = Some (ind, v)"
  shows "line \<noteq> [] \<and> (last line = 59 \<or> last line = 10)"
proof -
  from pattern_match_shape[OF assms] obtain ws r where
    l: "line = ind @ str ''backdrop-filter:'' @ ws @ v @ 59 # r" and e: "at_end r"
    by blast
  from e have "last (59 # r) = 59 \<or> last (59 # r) = 10" by (auto simp: at_end_def)
  with l show ?thesis by auto
qed

lemma pattern_match_no_indent:
  "takeWhile is_space line = [] \<Longrightarrow> pattern_match line = None"
  by (simp add: pattern_match_def greedy_def)

lemma pattern_match_webkit_line:
  assumes "\<forall>c\<in>set ind. is_space c"
  shows "pattern_match (ind @ str ''-webkit-backdrop-filter: '' @ v @ str '';'') = None"
proof (cases "pattern_match (ind @ str ''-webkit-backdrop-filter: '' @ v @ str '';'')")
  case None
  then show ?thesis .
next
  case (Some g)
  obtain ind' v' where g: "g = (ind', v')" by (cases g)
  let ?l = "ind @ str ''-webkit-backdrop-filter: '' @ v @ str '';''"
  have m: "pattern_match ?l = Some (ind', v')" using Some g by simp
  have "takeWhile is_space ?l = ind"
    using assms by (simp add: takeWhile_append2 webkit_unfold not_space_dash)
  with pattern_match_indent[OF m] have i: "ind' = ind" by simp
  from pattern_match_shape[OF m] obtain ws r where
    "?l = ind' @ str ''backdrop-filter:'' @ ws @ v' @ 59 # r" by blast
  with i have "str ''-webkit-backdrop-filter: '' @ v @ str '';'' =
      str ''backdrop-filter:'' @ ws @ v' @ 59 # r" by simp
  then have False by (simp add: webkit_unfold lit_unfold)
  then show ?thesis ..
qed

lemma match_end_None:
  "m < length v \<Longrightarrow> match_end indent (v @ [59]) m = None"
proof -
  assume a: "m < length v"
  then have "drop m (v @ [59]) = drop m v @ [59]" by simp
  moreover from a obtain c r where "drop m v = c # r" by (cases "drop m v") auto
  ultimately have "drop m (v @ [59]) = c # (r @ [59])" by simp
  then show ?thesis by (simp add: match_end_def at_end_def)
qed

lemma match_value_intro:
  assumes "\<forall>c\<in>set v. is_dot c"
  shows "match_value indent (ws @ v @ [59]) (length ws) = Some (indent, v)"
proof -
  have t: "length (takeWhile is_dot (v @ [59])) = Suc (length v)"
    using assms by (simp add: takeWhile_append2 is_dot_def)
  have "first_some (match_end indent (v @ [59])) (lazy is_dot (v @ [59])) =
          match_end indent (v @ [59]) (length v)"
  proof (rule first_some_only)
    show "length v \<in> set (lazy is_dot (v @ [59]))" by (simp add: lazy_set t)
  next
    fix m assume "m \<in> set (lazy is_dot (v @ [59]))" and ne: "m \<noteq> length v"
    then have "m \<le> Suc (length v)" by (simp add: lazy_set t)
    with ne consider "m < length v" | "m = Suc (length v)" by linarith
    then show "match_end indent (v @ [59]) m = None"
    proof cases
      case 1
      then show ?thesis by (rule match_end_None)
    next
      case 2
      then show ?thesis by (simp add: match_end_def)
    qed
  qed
  also have "\<dots> = Some (indent, v)" by (simp add: match_end_def at_end_def)
  finally show ?thesis by (simp add: match_value_def)
qed

lemma pattern_match_intro:
  assumes i: "ind \<noteq> []" "\<forall>c\<in>set ind. is_space c" and w: "\<forall>c\<in>set ws. is_space c"
    and v: "\<forall>c\<in>set v. is_dot c" "v = [] \<or> \<not> is_space (hd v)"
  shows "pattern_match (ind @ str ''backdrop-filter:'' @ ws @ v @ str '';'') = Some (ind, v)"
proof -
  let ?l = "ind @ str ''backdrop-filter:'' @ ws @ v @ str '';''"
  let ?s = "ws @ v @ [59]"
  have ti: "takeWhile is_space ?l = ind"
    using i(2) by (simp add: takeWhile_append2 lit_unfold not_space_b)
  have "takeWhile is_space (v @ [59]) = []"
    using v(2) by (cases v) (auto simp: not_space_semicolon)
  then have tw: "takeWhile is_space ?s = ws"
    using w by (simp add: takeWhile_append2)
  have g0: "greedy is_space 0 ?s = length ws # rev [0..<length ws]"
    using greedy_Cons[of 0 is_space ?s] by (simp add: tw)
  have mi: "match_indent ?l (length ind) = Some (ind, v)"
    by (simp add: match_indent_def g0 match_value_intro[OF v(1)] semicolon_unfold)
  from i(1) have "1 \<le> length (takeWhile is_space ?l)"
    unfolding ti by (cases ind) auto
  from greedy_Cons[OF this] have "greedy is_space 1 ?l = length ind # rev [1..<length ind]"
    unfolding ti .
  with mi show ?thesis by (simp add: pattern_match_def)
qed

section \<open>The loop, line by line\<close>

lemma loop_body_chunk:
  "loop_body lines i acc = acc @ chunk (if i > 0 then lines ! (i - 1) else []) (lines ! i)"
  by (simp add: loop_body_def chunk_def Let_def split: option.splits)

lemma fold_loop_body:
  "fold (loop_body lines) is acc = acc @ concat (map (\<lambda>i. loop_body lines i []) is)"
proof (induction "is" arbitrary: acc)
  case Nil
  then show ?case by simp
next
  case (Cons i "is")
  have "loop_body lines i acc = acc @ loop_body lines i []"
    by (simp add: loop_body_chunk)
  then show ?case by (simp add: Cons.IH)
qed

lemma fold_loop_body_at:
  assumes "i < n"
  shows "fold (loop_body lines) [0..<n] [] =
           fold (loop_body lines) [0..<i] [] @ loop_body lines i []
             @ fold (loop_body lines) [Suc i..<n] []"
proof -
  have "[0..<i + (n - i)] = [0..<i] @ [i..<i + (n - i)]"
    by (rule upt_add_eq_append) simp
  with assms have "[0..<n] = [0..<i] @ [i..<n]" by simp
  also from assms have "[i..<n] = i # [Suc i..<n]" by (rule upt_conv_Cons)
  finally have u: "[0..<n] = [0..<i] @ i # [Suc i..<n]" .
  have f: "fold (loop_body lines) js [] = concat (map (\<lambda>i. loop_body lines i []) js)" for js
    using fold_loop_body[of lines js "[]"] by simp
  show ?thesis unfolding f u by simp
qed

lemma concat_loop_body_scan:
  "concat (map (\<lambda>i. loop_body (pre @ ls) i []) [length pre..<length pre + length ls]) =
     scan (if pre = [] then [] else last pre) ls"
proof (induction ls arbitrary: pre)
  case Nil
  then show ?case by simp
next
  case (Cons l ls)
  have "[length pre..<length pre + Suc (length ls)] =
          length pre # [Suc (length pre)..<length pre + Suc (length ls)]"
    by (rule upt_conv_Cons) simp
  then have u: "[length pre..<length pre + length (l # ls)] =
             length pre # [length (pre @ [l])..<length (pre @ [l]) + length ls]"
    by simp
  have p: "(if 0 < length pre then (pre @ l # ls) ! (length pre - 1) else []) =
             (if pre = [] then [] else last pre)"
    by (cases pre rule: rev_cases) (simp_all add: nth_append)
  have h: "loop_body (pre @ l # ls) (length pre) [] = chunk (if pre = [] then [] else last pre) l"
    unfolding loop_body_chunk p by simp
  have "concat (map (\<lambda>i. loop_body ((pre @ [l]) @ ls) i [])
            [length (pre @ [l])..<length (pre @ [l]) + length ls]) = scan l ls"
    using Cons.IH[of "pre @ [l]"] by simp
  then have t: "concat (map (\<lambda>i. loop_body (pre @ l # ls) i [])
            [length (pre @ [l])..<length (pre @ [l]) + length ls]) = scan l ls"
    by simp
  show ?case unfolding u by (simp only: list.map concat.simps h t scan.simps)
qed

lemma modified_lines_scan: "fold (loop_body lines) [0..<length lines] [] = scan [] lines"
  using concat_loop_body_scan[of "[]" lines] by (simp add: fold_loop_body[of lines _ "[]"])

lemma fix_backdrop_filter_scan:
  "fix_backdrop_filter css = str_join (scan [] (str_split css))"
  by (simp add: fix_backdrop_filter_def modified_lines_scan)

lemma chunk_cases:
  obtains (keep) "chunk p l = [l]"
  | (insert) ind v where "pattern_match l = Some (ind, v)"
      "\<not> contains (ind @ str ''-webkit-backdrop-filter: '' @ v @ str '';'') p"
      "chunk p l = [ind @ str ''-webkit-backdrop-filter: '' @ v @ str '';'', l]"
proof (cases "pattern_match l")
  case None
  then have "chunk p l = [l]" by (simp add: chunk_def)
  then show thesis by (rule keep)
next
  case (Some g)
  obtain ind v where g: "g = (ind, v)" by (cases g)
  show thesis
  proof (cases "contains (ind @ str ''-webkit-backdrop-filter: '' @ v @ str '';'') p")
    case True
    with Some g have "chunk p l = [l]" by (simp add: chunk_def)
    then show thesis by (rule keep)
  next
    case False
    with Some g
    have "chunk p l = [ind @ str ''-webkit-backdrop-filter: '' @ v @ str '';'', l]"
      by (simp add: chunk_def)
    with Some g False show thesis by (auto intro: insert)
  qed
qed

lemma chunk_no_newline:
  assumes "10 \<notin> set l" and "x \<in> set (chunk p l)"
  shows "10 \<notin> set x"
proof (cases p l rule: chunk_cases)
  case keep
  with assms show ?thesis by simp
next
  case (insert ind v)
  from pattern_match_groups_no_newline[OF insert(1) assms(1)]
  have "10 \<notin> set (ind @ str ''-webkit-backdrop-filter: '' @ v @ str '';'')"
    by (simp add: webkit_unfold semicolon_unfold)
  with assms insert(3) show ?thesis by auto
qed

lemma scan_no_newline:
  "(\<And>l. l \<in> set ls \<Longrightarrow> 10 \<notin> set l) \<Longrightarrow> x \<in> set (scan p ls) \<Longrightarrow> 10 \<notin> set x"
proof (induction ls arbitrary: p)
  case Nil
  then show ?case by simp
next
  case (Cons l ls)
  from Cons.prems(2) consider "x \<in> set (chunk p l)" | "x \<in> set (scan l ls)" by auto
  then show ?case
  proof cases
    case 1
    with Cons.prems(1)[of l] show ?thesis by (auto dest: chunk_no_newline[rotated])
  next
    case 2
    with Cons.IH[of l] Cons.prems(1) show ?thesis by auto
  qed
qed

lemma chunk_not_Nil: "chunk p l \<noteq> []"
  by (cases p l rule: chunk_cases) simp_all

lemma scan_not_Nil: "ls \<noteq> [] \<Longrightarrow> scan p ls \<noteq> []"
  by (cases ls) (simp_all add: chunk_not_Nil)

lemma split_fix_backdrop_filter:
  "str_split (fix_backdrop_filter css) = scan [] (str_split css)"
  unfolding fix_backdrop_filter_scan
proof (rule str_split_join)
  show "scan [] (str_split css) \<noteq> []" by (rule scan_not_Nil) (rule str_split_not_Nil)
next
  fix l assume "l \<in> set (scan [] (str_split css))"
  then show "10 \<notin> set l" by (rule scan_no_newline[rotated]) (rule str_split_no_newline)
qed

lemma scan_idem: "scan p (scan p ls) = scan p ls"
proof (induction ls arbitrary: p)
  case Nil
  then show ?case by simp
next
  case (Cons l ls)
  show ?case
  proof (cases p l rule: chunk_cases)
    case keep
    then show ?thesis by (simp add: Cons.IH)
  next
    case (insert ind v)
    let ?e = "ind @ str ''-webkit-backdrop-filter: '' @ v @ str '';''"
    from pattern_match_shape[OF insert(1)] have "\<forall>c\<in>set ind. is_space c" by blast
    then have "pattern_match ?e = None" by (rule pattern_match_webkit_line)
    then have a: "chunk p ?e = [?e]" by (simp add: chunk_def)
    have b: "chunk ?e l = [l]" using insert(1) by (simp add: chunk_def contains_self)
    show ?thesis by (simp add: insert(3) a b Cons.IH)
  qed
qed

lemma subseq_scan: "subseq ls (scan p ls)"
proof (induction ls arbitrary: p)
  case Nil
  then show ?case by simp
next
  case (Cons l ls)
  have k: "subseq (l # ls) (l # scan l ls)" by (simp add: Cons.IH)
  show ?case
  proof (cases p l rule: chunk_cases)
    case keep
    with k show ?thesis by simp
  next
    case (insert ind v)
    from k have "subseq (l # ls)
        ((ind @ str ''-webkit-backdrop-filter: '' @ v @ str '';'') # l # scan l ls)"
      by (rule list_emb_Cons)
    with insert(3) show ?thesis by simp
  qed
qed

lemma scan_all_None: "(\<And>l. l \<in> set ls \<Longrightarrow> pattern_match l = None) \<Longrightarrow> scan p ls = ls"
  by (induction ls arbitrary: p) (simp_all add: chunk_def)

lemma output_at:
  assumes "i < length (str_split css)"
  shows "str_split (fix_backdrop_filter css) =
           fold (loop_body (str_split css)) [0..<i] []
             @ chunk (if i > 0 then str_split css ! (i - 1) else []) (str_split css ! i)
             @ fold (loop_body (str_split css)) [Suc i..<length (str_split css)] []"
proof -
  have "str_split (fix_backdrop_filter css) =
          fold (loop_body (str_split css)) [0..<length (str_split css)] []"
    by (simp only: split_fix_backdrop_filter modified_lines_scan)
  also have "\<dots> = fold (loop_body (str_split css)) [0..<i] []
             @ loop_body (str_split css) i []
             @ fold (loop_body (str_split css)) [Suc i..<length (str_split css)] []"
    using assms by (rule fold_loop_body_at)
  finally show ?thesis by (simp only: loop_body_chunk[of _ _ "[]"] append_Nil)
qed

section \<open>The de-duplication rule\<close>

text \<open>
  C1 (as the specification states it) has the patcher skip the insertion if and only if
  the preceding line is exactly equal to the expected prefixed line, and insert before
  any other predecessor, such as one that contains the expected line as a proper
  substring. The code tests \<open>webkit_pattern not in prev_line\<close>, which is containment:
  after the predecessor \<open>  -webkit-backdrop-filter: blur(5px); /* x */\<close>, which is not
  equal to the expected line, nothing is inserted and the text comes back unchanged.
\<close>

theorem exact_equality_counterexample:
  "str ''  -webkit-backdrop-filter: blur(5px); /* x */''
     \<noteq> prefixed_line (str ''  '') (str ''blur(5px)'') \<and>
   pattern_match (str ''  backdrop-filter: blur(5px);'') = Some (str ''  '', str ''blur(5px)'') \<and>
   fix_backdrop_filter
     (str ''  -webkit-backdrop-filter: blur(5px); /* x */'' @ [10]
        @ str ''  backdrop-filter: blur(5px);'')
     = str ''  -webkit-backdrop-filter: blur(5px); /* x */'' @ [10]
         @ str ''  backdrop-filter: blur(5px);''"
  by code_simp

text \<open>
  C1, amended: for a line of the input that matches the pattern with groups \<open>indent\<close>
  and \<open>val\<close>, the insertion is skipped if and only if the line before it in the input
  (the empty string for the first line) contains the expected line
  \<open>indent-webkit-backdrop-filter: val;\<close> as a contiguous substring; otherwise that
  expected line is inserted immediately before the matching line. Around it, the output
  is what the loop produces for the lines before and for the lines after.
\<close>

theorem dedup_by_containment:
  fixes css :: pystr and i :: nat
  defines "lines \<equiv> str_split css"
  defines "prev_line \<equiv> (if i > 0 then lines ! (i - 1) else [])"
  assumes "i < length lines" and "pattern_match (lines ! i) = Some (indent, val)"
  shows "str_split (fix_backdrop_filter css) =
           fold (loop_body lines) [0..<i] []
             @ (if \<exists>p q. prev_line = p @ prefixed_line indent val @ q
                then [lines ! i]
                else [prefixed_line indent val, lines ! i])
             @ fold (loop_body lines) [Suc i..<length lines] []"
proof -
  have "chunk prev_line (lines ! i) =
          (if \<exists>p q. prev_line = p @ prefixed_line indent val @ q
           then [lines ! i] else [prefixed_line indent val, lines ! i])"
    using assms(4) by (simp add: chunk_def contains_iff)
  with output_at[of i css] assms(3) show ?thesis
    unfolding lines_def prev_line_def by simp
qed

theorem dedup_by_containment_witness:
  "1 < length (str_split (str ''  -webkit-backdrop-filter: blur(5px); /* x */'' @ [10]
                      @ str ''  backdrop-filter: blur(5px);'')) \<and>
   pattern_match (str_split (str ''  -webkit-backdrop-filter: blur(5px); /* x */'' @ [10]
                      @ str ''  backdrop-filter: blur(5px);'') ! 1)
     = Some (str ''  '', str ''blur(5px)'') \<and>
   str_split (fix_backdrop_filter (str ''  -webkit-backdrop-filter: blur(5px); /* x */'' @ [10]
                      @ str ''  backdrop-filter: blur(5px);''))
     = [str ''  -webkit-backdrop-filter: blur(5px); /* x */'', str ''  backdrop-filter: blur(5px);'']"
proof -
  let ?css = "str ''  -webkit-backdrop-filter: blur(5px); /* x */'' @ [10]
                      @ str ''  backdrop-filter: blur(5px);''"
  have h1: "1 < length (str_split ?css)" by code_simp
  have h2: "pattern_match (str_split ?css ! 1) = Some (str ''  '', str ''blur(5px)'')"
    by code_simp
  have p: "(if 0 < (1::nat) then str_split ?css ! (1 - 1) else []) =
             [] @ prefixed_line (str ''  '') (str ''blur(5px)'') @ str '' /* x */''"
    by code_simp
  have a: "fold (loop_body (str_split ?css)) [0..<1] [] =
             [str ''  -webkit-backdrop-filter: blur(5px); /* x */'']"
    by code_simp
  have b: "fold (loop_body (str_split ?css)) [Suc 1..<length (str_split ?css)] [] = []"
    by code_simp
  have c: "str_split ?css ! 1 = str ''  backdrop-filter: blur(5px);''" by code_simp
  have "\<exists>p q. (if 0 < (1::nat) then str_split ?css ! (1 - 1) else []) =
           p @ prefixed_line (str ''  '') (str ''blur(5px)'') @ q"
    unfolding p by blast
  with dedup_by_containment[OF h1 h2]
  have "str_split (fix_backdrop_filter ?css) =
          fold (loop_body (str_split ?css)) [0..<1] [] @ [str_split ?css ! 1]
            @ fold (loop_body (str_split ?css)) [Suc 1..<length (str_split ?css)] []"
    by simp
  then have "str_split (fix_backdrop_filter ?css) =
          [str ''  -webkit-backdrop-filter: blur(5px); /* x */'', str ''  backdrop-filter: blur(5px);'']"
    unfolding a b c by simp
  with h1 h2 show ?thesis by blast
qed

section \<open>Idempotence and preservation\<close>

text \<open>
  C2: the patch is idempotent. For every input string, patching the patched text gives
  the patched text again. An inserted line starts with the indent and a hyphen, so it
  never matches the pattern itself, and it contains the expected line of the line that
  follows it.
\<close>

theorem fix_backdrop_filter_idempotent:
  "fix_backdrop_filter (fix_backdrop_filter css) = fix_backdrop_filter css"
proof -
  have "fix_backdrop_filter (fix_backdrop_filter css) =
          str_join (scan [] (str_split (fix_backdrop_filter css)))"
    by (rule fix_backdrop_filter_scan)
  also have "\<dots> = str_join (scan [] (scan [] (str_split css)))"
    by (simp only: split_fix_backdrop_filter)
  also have "\<dots> = str_join (scan [] (str_split css))"
    by (simp only: scan_idem)
  also have "\<dots> = fix_backdrop_filter css"
    by (rule fix_backdrop_filter_scan[symmetric])
  finally show ?thesis .
qed

text \<open>
  C3: for every input string, the lines of the input are a subsequence of the lines of
  the output (each input line is there, unmodified, in the same relative order), so the
  output has at least as many lines as the input.
\<close>

theorem input_lines_preserved:
  "subseq (str_split css) (str_split (fix_backdrop_filter css)) \<and>
   length (str_split css) \<le> length (str_split (fix_backdrop_filter css))"
proof -
  have s: "subseq (str_split css) (str_split (fix_backdrop_filter css))"
    unfolding split_fix_backdrop_filter by (rule subseq_scan)
  from s have "length (str_split css) \<le> length (str_split (fix_backdrop_filter css))"
    by (rule list_emb_length)
  with s show ?thesis ..
qed

section \<open>Lines with several declarations\<close>

text \<open>
  C4 (as the specification states it) has a line with several declarations, such as
  \<open>  backdrop-filter: blur(5px); color: red;\<close>, fail to match and pass through with
  nothing inserted. The lazy \<open>(.*?)\<close> is followed by \<open>;$\<close>, so it grows until the
  semicolon that ends the line: the line matches with the value
  \<open>blur(5px); color: red\<close>, and a prefixed line carrying that value is inserted.
\<close>

theorem multiple_declarations_counterexample:
  "pattern_match (str ''  backdrop-filter: blur(5px); color: red;'')
     = Some (str ''  '', str ''blur(5px); color: red'') \<and>
   fix_backdrop_filter (str ''  backdrop-filter: blur(5px); color: red;'')
     = str ''  -webkit-backdrop-filter: blur(5px); color: red;'' @ [10]
         @ str ''  backdrop-filter: blur(5px); color: red;''"
  by code_simp

text \<open>
  C4, amended: a line with several declarations matches the pattern whenever it is at
  least one whitespace character, then \<open>backdrop-filter:\<close>, then optional whitespace,
  then any text \<open>val\<close> that does not start with whitespace, then a semicolon that ends
  the line; \<open>val\<close> may hold further semicolons and declarations. The groups are the
  leading whitespace and \<open>val\<close>, the line itself is emitted unmodified, and the line
  \<open>indent-webkit-backdrop-filter: val;\<close> is inserted immediately before it unless the
  preceding line contains that text.
\<close>

theorem multiple_declarations_match:
  fixes css :: pystr and i :: nat
  defines "lines \<equiv> str_split css"
  defines "prev_line \<equiv> (if i > 0 then lines ! (i - 1) else [])"
  assumes "i < length lines"
    and "lines ! i = indent @ str ''backdrop-filter:'' @ ws @ val @ str '';''"
    and "indent \<noteq> []" and "list_all is_space indent" and "list_all is_space ws"
    and "val = [] \<or> \<not> is_space (hd val)"
  shows "pattern_match (lines ! i) = Some (indent, val) \<and>
         str_split (fix_backdrop_filter css) =
           fold (loop_body lines) [0..<i] []
             @ (if contains (prefixed_line indent val) prev_line
                then [lines ! i]
                else [prefixed_line indent val, lines ! i])
             @ fold (loop_body lines) [Suc i..<length lines] []"
proof -
  from assms(3) have "lines ! i \<in> set (str_split css)" unfolding lines_def by simp
  then have "10 \<notin> set (lines ! i)" by (rule str_split_no_newline)
  then have "\<forall>c\<in>set val. is_dot c" unfolding assms(4) by (auto simp: is_dot_def)
  with assms(5-8) have m: "pattern_match (lines ! i) = Some (indent, val)"
    unfolding assms(4) list_all_iff by (intro pattern_match_intro)
  then have "chunk prev_line (lines ! i) =
          (if contains (prefixed_line indent val) prev_line
           then [lines ! i] else [prefixed_line indent val, lines ! i])"
    by (simp add: chunk_def)
  with output_at[of i css] assms(3) m show ?thesis
    unfolding lines_def prev_line_def by simp
qed

theorem multiple_declarations_match_witness:
  "0 < length (str_split (str ''  backdrop-filter: blur(5px); color: red;'')) \<and>
   str_split (str ''  backdrop-filter: blur(5px); color: red;'') ! 0
     = str ''  '' @ str ''backdrop-filter:'' @ str '' '' @ str ''blur(5px); color: red'' @ str '';'' \<and>
   str ''  '' \<noteq> [] \<and> list_all is_space (str ''  '') \<and> list_all is_space (str '' '') \<and>
   \<not> is_space (hd (str ''blur(5px); color: red'')) \<and>
   pattern_match (str_split (str ''  backdrop-filter: blur(5px); color: red;'') ! 0)
     = Some (str ''  '', str ''blur(5px); color: red'') \<and>
   str_split (fix_backdrop_filter (str ''  backdrop-filter: blur(5px); color: red;''))
     = [str ''  -webkit-backdrop-filter: blur(5px); color: red;'',
        str ''  backdrop-filter: blur(5px); color: red;'']"
proof -
  let ?css = "str ''  backdrop-filter: blur(5px); color: red;''"
  let ?val = "str ''blur(5px); color: red''"
  have h1: "0 < length (str_split ?css)" by code_simp
  have h2: "str_split ?css ! 0 = str ''  '' @ str ''backdrop-filter:'' @ str '' '' @ ?val @ str '';''"
    by code_simp
  have h3: "str ''  '' \<noteq> []" by code_simp
  have h4: "list_all is_space (str ''  '')" by code_simp
  have h5: "list_all is_space (str '' '')" by code_simp
  have h6: "\<not> is_space (hd ?val)" by code_simp
  then have h6': "?val = [] \<or> \<not> is_space (hd ?val)" ..
  note t = multiple_declarations_match[OF h1 h2 h3 h4 h5 h6']
  have e: "fold (loop_body (str_split ?css)) [0..<0] []
             @ (if contains (prefixed_line (str ''  '') ?val)
                     (if 0 < (0::nat) then str_split ?css ! (0 - 1) else [])
                then [str_split ?css ! 0]
                else [prefixed_line (str ''  '') ?val, str_split ?css ! 0])
             @ fold (loop_body (str_split ?css)) [Suc 0..<length (str_split ?css)] []
           = [str ''  -webkit-backdrop-filter: blur(5px); color: red;'',
              str ''  backdrop-filter: blur(5px); color: red;'']"
    by code_simp
  from t[THEN conjunct2] e
  have "str_split (fix_backdrop_filter ?css)
     = [str ''  -webkit-backdrop-filter: blur(5px); color: red;'',
        str ''  backdrop-filter: blur(5px); color: red;'']"
    by (rule trans)
  with h1 h2 h3 h4 h5 h6 t[THEN conjunct1] show ?thesis by blast
qed

section \<open>The inserted line\<close>

text \<open>
  C5: for every line of the input that matches and gets an insertion, the inserted line
  is built from the groups of that line as \<open>indent-webkit-backdrop-filter: val;\<close> and is
  placed immediately before it, where \<open>indent\<close> is the leading whitespace of the line and
  \<open>val\<close> is what stands between the whitespace after the colon and the final semicolon.
  For the indent of four spaces and the value \<open>blur(10px)\<close> the inserted line is exactly
  \<open>    -webkit-backdrop-filter: blur(10px);\<close>, and the single-line input
  \<open>  backdrop-filter: blur(5px);\<close> gives \<open>  -webkit-backdrop-filter: blur(5px);\<close>
  followed by \<open>  backdrop-filter: blur(5px);\<close>.
\<close>

theorem prefixed_line_construction:
  fixes css :: pystr and i :: nat
  defines "lines \<equiv> str_split css"
  defines "prev_line \<equiv> (if i > 0 then lines ! (i - 1) else [])"
  assumes "i < length lines" and "pattern_match (lines ! i) = Some (indent, val)"
    and "\<not> contains (prefixed_line indent val) prev_line"
  shows "indent = takeWhile is_space (lines ! i) \<and>
         (\<exists>ws. list_all is_space ws \<and>
               lines ! i = indent @ str ''backdrop-filter:'' @ ws @ val @ str '';'') \<and>
         str_split (fix_backdrop_filter css) =
           fold (loop_body lines) [0..<i] []
             @ [indent @ str ''-webkit-backdrop-filter: '' @ val @ str '';'', lines ! i]
             @ fold (loop_body lines) [Suc i..<length lines] [] \<and>
         pattern_match (str ''    backdrop-filter: blur(10px);'')
           = Some (str ''    '', str ''blur(10px)'') \<and>
         str ''    '' @ str ''-webkit-backdrop-filter: '' @ str ''blur(10px)'' @ str '';''
           = str ''    -webkit-backdrop-filter: blur(10px);'' \<and>
         fix_backdrop_filter (str ''  backdrop-filter: blur(5px);'')
           = str ''  -webkit-backdrop-filter: blur(5px);'' @ [10]
               @ str ''  backdrop-filter: blur(5px);''"
proof -
  have a: "indent = takeWhile is_space (lines ! i)"
    using assms(4) by (rule pattern_match_indent)
  from assms(3) have "lines ! i \<in> set (str_split css)" unfolding lines_def by simp
  then have "10 \<notin> set (lines ! i)" by (rule str_split_no_newline)
  with assms(4) have "\<exists>ws. lines ! i = indent @ str ''backdrop-filter:'' @ ws @ val @ str '';'' \<and>
           (\<forall>c\<in>set ws. is_space c)"
    by (rule pattern_match_line)
  then have b: "\<exists>ws. list_all is_space ws \<and>
               lines ! i = indent @ str ''backdrop-filter:'' @ ws @ val @ str '';''"
    unfolding list_all_iff by blast
  have "chunk prev_line (lines ! i) = [prefixed_line indent val, lines ! i]"
    using assms(4,5) by (simp add: chunk_def)
  with output_at[of i css] assms(3)
  have c: "str_split (fix_backdrop_filter css) =
           fold (loop_body lines) [0..<i] []
             @ [indent @ str ''-webkit-backdrop-filter: '' @ val @ str '';'', lines ! i]
             @ fold (loop_body lines) [Suc i..<length lines] []"
    unfolding lines_def prev_line_def by simp
  have d: "pattern_match (str ''    backdrop-filter: blur(10px);'')
           = Some (str ''    '', str ''blur(10px)'')"
    by code_simp
  have e: "str ''    '' @ str ''-webkit-backdrop-filter: '' @ str ''blur(10px)'' @ str '';''
           = str ''    -webkit-backdrop-filter: blur(10px);''"
    by (simp add: str_def)
  have f: "fix_backdrop_filter (str ''  backdrop-filter: blur(5px);'')
           = str ''  -webkit-backdrop-filter: blur(5px);'' @ [10]
               @ str ''  backdrop-filter: blur(5px);''"
    by code_simp
  from a b c d e f show ?thesis by blast
qed

theorem prefixed_line_construction_witness:
  "0 < length (str_split (str ''    backdrop-filter: blur(10px);'')) \<and>
   pattern_match (str_split (str ''    backdrop-filter: blur(10px);'') ! 0)
     = Some (str ''    '', str ''blur(10px)'') \<and>
   \<not> contains (prefixed_line (str ''    '') (str ''blur(10px)'')) [] \<and>
   str_split (fix_backdrop_filter (str ''    backdrop-filter: blur(10px);''))
     = [str ''    -webkit-backdrop-filter: blur(10px);'', str ''    backdrop-filter: blur(10px);'']"
proof -
  let ?css = "str ''    backdrop-filter: blur(10px);''"
  have h1: "0 < length (str_split ?css)" by code_simp
  have h2: "pattern_match (str_split ?css ! 0) = Some (str ''    '', str ''blur(10px)'')"
    by code_simp
  have h3: "\<not> contains (prefixed_line (str ''    '') (str ''blur(10px)'')) []"
    by code_simp
  then have h3': "\<not> contains (prefixed_line (str ''    '') (str ''blur(10px)''))
                    (if 0 < (0::nat) then str_split ?css ! (0 - 1) else [])"
    by simp
  note t = prefixed_line_construction[OF h1 h2 h3']
  have e: "fold (loop_body (str_split ?css)) [0..<0] []
             @ [str ''    '' @ str ''-webkit-backdrop-filter: '' @ str ''blur(10px)'' @ str '';'',
                str_split ?css ! 0]
             @ fold (loop_body (str_split ?css)) [Suc 0..<length (str_split ?css)] []
           = [str ''    -webkit-backdrop-filter: blur(10px);'', str ''    backdrop-filter: blur(10px);'']"
    by code_simp
  from t[THEN conjunct2, THEN conjunct2, THEN conjunct1] e
  have "str_split (fix_backdrop_filter ?css)
     = [str ''    -webkit-backdrop-filter: blur(10px);'', str ''    backdrop-filter: blur(10px);'']"
    by (rule trans)
  with h1 h2 h3 show ?thesis by blast
qed

section \<open>Failures in the driver\<close>

text \<open>
  C6 (as the specification states it) has every failure of the read, patch or write
  step caught, exactly one error line printed, nothing raised again and the exit status
  0. The handler prints the notice with a \<open>print\<close> of its own, which nothing guards:
  when the file is missing and the standard output cannot encode the notice, the
  handler's \<open>print\<close> raises, no line is printed, that exception leaves \<open>main\<close> and
  the exit status is 1.
\<close>

theorem handler_print_failure_counterexample:
  "file_read missing_file_ascii_stdout
     = Inl (Exception (str ''[Errno 2] No such file or directory'')) \<and>
   stdout (main missing_file_ascii_stdout) = [] \<and>
   raised (main missing_file_ascii_stdout)
     = Some (Exception (str ''ordinal not in range(128)'')) \<and>
   exit_status missing_file_ascii_stdout (main missing_file_ascii_stdout) = 1"
  by (simp add: missing_file_ascii_stdout_def main_def try_block_def error_notice_def
      exit_status_def)

text \<open>
  C6, amended: every failure raised while the driver reads or writes the file is caught
  at the top level (patching raises nothing: \<open>fix_backdrop_filter\<close> is total), and the
  handler calls \<open>print\<close> once with the error notice followed by the failure's
  description. When that \<open>print\<close> returns, exactly that one line is printed and no
  exception leaves \<open>main\<close>; when it raises, nothing is printed and its exception
  leaves \<open>main\<close>. When reading, writing and the success \<open>print\<close> all succeed,
  exactly the success notice is printed and no exception leaves \<open>main\<close>. The exit
  status is 0 exactly when no exception leaves \<open>main\<close> and the flush of the standard
  output at exit succeeds, in the success path and in the caught-failure path alike.
\<close>

theorem main_catches_file_failures:
  "(\<forall>e. (file_read w = Inl e \<or>
         (\<exists>css. file_read w = Inr css \<and> file_write w (fix_backdrop_filter css) = Some e)) \<and>
        print_raises w ([10060, 32, 38169, 35823, 58, 32] @ message e) = None \<longrightarrow>
        stdout (main w) = [[10060, 32, 38169, 35823, 58, 32] @ message e] \<and>
        raised (main w) = None) \<and>
   (\<forall>e e'. (file_read w = Inl e \<or>
         (\<exists>css. file_read w = Inr css \<and> file_write w (fix_backdrop_filter css) = Some e)) \<and>
        print_raises w ([10060, 32, 38169, 35823, 58, 32] @ message e) = Some e' \<longrightarrow>
        stdout (main w) = [] \<and> raised (main w) = Some e') \<and>
   (\<forall>css. file_read w = Inr css \<and> file_write w (fix_backdrop_filter css) = None \<and>
        print_raises w success_notice = None \<longrightarrow>
        stdout (main w) = [success_notice] \<and> raised (main w) = None) \<and>
   (exit_status w (main w) = 0 \<longleftrightarrow> raised (main w) = None \<and> \<not> flush_fails w)"
proof -
  have a: "stdout (main w) = [[10060, 32, 38169, 35823, 58, 32] @ message e] \<and>
           raised (main w) = None"
    if "file_read w = Inl e \<or>
         (\<exists>css. file_read w = Inr css \<and> file_write w (fix_backdrop_filter css) = Some e)"
      and "print_raises w ([10060, 32, 38169, 35823, 58, 32] @ message e) = None" for e
  proof -
    from that(1) have "try_block w = Inl e"
      by (auto simp: try_block_def Let_def)
    with that(2) show ?thesis by (simp add: main_def error_notice_def)
  qed
  have b: "stdout (main w) = [] \<and> raised (main w) = Some e'"
    if "file_read w = Inl e \<or>
         (\<exists>css. file_read w = Inr css \<and> file_write w (fix_backdrop_filter css) = Some e)"
      and "print_raises w ([10060, 32, 38169, 35823, 58, 32] @ message e) = Some e'" for e e'
  proof -
    from that(1) have "try_block w = Inl e"
      by (auto simp: try_block_def Let_def)
    with that(2) show ?thesis by (simp add: main_def error_notice_def)
  qed
  have c: "stdout (main w) = [success_notice] \<and> raised (main w) = None"
    if "file_read w = Inr css \<and> file_write w (fix_backdrop_filter css) = None \<and>
        print_raises w success_notice = None" for css
  proof -
    from that have "try_block w = Inr [success_notice]"
      by (simp add: try_block_def Let_def)
    then show ?thesis by (simp add: main_def)
  qed
  have d: "exit_status w (main w) = 0 \<longleftrightarrow> raised (main w) = None \<and> \<not> flush_fails w"
    by (simp add: exit_status_def split: option.splits)
  from a b c d show ?thesis by blast
qed

theorem main_catches_file_failures_witness:
  "stdout (main \<lparr>file_read = Inl (Exception (str ''[Errno 2] No such file or directory'')),
                 file_write = (\<lambda>content. None), print_raises = (\<lambda>text. None),
                 flush_fails = False\<rparr>)
     = [[10060, 32, 38169, 35823, 58, 32] @ str ''[Errno 2] No such file or directory''] \<and>
   exit_status \<lparr>file_read = Inl (Exception (str ''[Errno 2] No such file or directory'')),
                 file_write = (\<lambda>content. None), print_raises = (\<lambda>text. None),
                 flush_fails = False\<rparr>
     (main \<lparr>file_read = Inl (Exception (str ''[Errno 2] No such file or directory'')),
                 file_write = (\<lambda>content. None), print_raises = (\<lambda>text. None),
                 flush_fails = False\<rparr>) = 0 \<and>
   stdout (main \<lparr>file_read = Inr (str ''  backdrop-filter: blur(5px);''),
                 file_write = (\<lambda>content. Some (Exception (str ''[Errno 28] No space left on device''))),
                 print_raises = (\<lambda>text. None), flush_fails = False\<rparr>)
     = [[10060, 32, 38169, 35823, 58, 32] @ str ''[Errno 28] No space left on device''] \<and>
   stdout (main \<lparr>file_read = Inr (str ''  backdrop-filter: blur(5px);''),
                 file_write = (\<lambda>content. None), print_raises = (\<lambda>text. None),
                 flush_fails = False\<rparr>) = [success_notice] \<and>
   stdout (main missing_file_ascii_stdout) = [] \<and>
   raised (main missing_file_ascii_stdout)
     = Some (Exception (str ''ordinal not in range(128)''))"
proof -
  let ?w1 = "\<lparr>file_read = Inl (Exception (str ''[Errno 2] No such file or directory'')),
                 file_write = (\<lambda>content. None), print_raises = (\<lambda>text. None),
                 flush_fails = False\<rparr>"
  let ?w2 = "\<lparr>file_read = Inr (str ''  backdrop-filter: blur(5px);''),
                 file_write = (\<lambda>content. Some (Exception (str ''[Errno 28] No space left on device''))),
                 print_raises = (\<lambda>text. None), flush_fails = False\<rparr>"
  let ?w3 = "\<lparr>file_read = Inr (str ''  backdrop-filter: blur(5px);''),
                 file_write = (\<lambda>content. None), print_raises = (\<lambda>text. None),
                 flush_fails = False\<rparr>"
  let ?e1 = "Exception (str ''[Errno 2] No such file or directory'')"
  let ?e2 = "Exception (str ''[Errno 28] No space left on device'')"
  let ?e3 = "Exception (str ''ordinal not in range(128)'')"
  have h1: "(file_read ?w1 = Inl ?e1 \<or>
         (\<exists>css. file_read ?w1 = Inr css \<and> file_write ?w1 (fix_backdrop_filter css) = Some ?e1)) \<and>
        print_raises ?w1 ([10060, 32, 38169, 35823, 58, 32] @ message ?e1) = None"
    by simp
  have f1: "\<not> flush_fails ?w1" by simp
  have h2: "(file_read ?w2 = Inl ?e2 \<or>
         (\<exists>css. file_read ?w2 = Inr css \<and> file_write ?w2 (fix_backdrop_filter css) = Some ?e2)) \<and>
        print_raises ?w2 ([10060, 32, 38169, 35823, 58, 32] @ message ?e2) = None"
    by simp
  have h3: "file_read ?w3 = Inr (str ''  backdrop-filter: blur(5px);'') \<and>
        file_write ?w3 (fix_backdrop_filter (str ''  backdrop-filter: blur(5px);'')) = None \<and>
        print_raises ?w3 success_notice = None"
    by simp
  have h4: "(file_read missing_file_ascii_stdout = Inl ?e1 \<or>
         (\<exists>css. file_read missing_file_ascii_stdout = Inr css \<and>
                file_write missing_file_ascii_stdout (fix_backdrop_filter css) = Some ?e1)) \<and>
        print_raises missing_file_ascii_stdout
          ([10060, 32, 38169, 35823, 58, 32] @ message ?e1) = Some ?e3"
    by (simp add: missing_file_ascii_stdout_def)
  note t1 = main_catches_file_failures[of ?w1]
  note t2 = main_catches_file_failures[of ?w2]
  note t3 = main_catches_file_failures[of ?w3]
  note t4 = main_catches_file_failures[of missing_file_ascii_stdout]
  from t1 h1 have a: "stdout (main ?w1) = [[10060, 32, 38169, 35823, 58, 32] @ message ?e1] \<and>
        raised (main ?w1) = None"
    by blast
  with t1 f1 have a': "exit_status ?w1 (main ?w1) = 0" by blast
  from t2 h2 have b: "stdout (main ?w2) = [[10060, 32, 38169, 35823, 58, 32] @ message ?e2]"
    by blast
  from t3 h3 have c: "stdout (main ?w3) = [success_notice]" by blast
  from t4 h4 have d: "stdout (main missing_file_ascii_stdout) = [] \<and>
        raised (main missing_file_ascii_stdout) = Some ?e3"
    by blast
  from a a' b c d show ?thesis by simp
qed

section \<open>Lines that do not match\<close>

text \<open>
  C7: every line of the input that does not match the pattern is emitted unchanged and
  triggers no insertion: in the output it stands alone between what the loop produces
  for the lines before and for the lines after, and a text none of whose lines matches
  comes back unchanged. Neither \<open>color: red;\<close> nor
  \<open>backdrop-filter /* comment */: blur(4px);\<close> matches, and each comes back as it is.
\<close>

theorem non_matching_line_passes_through:
  fixes css :: pystr and i :: nat
  defines "lines \<equiv> str_split css"
  assumes "i < length lines" and "pattern_match (lines ! i) = None"
  shows "str_split (fix_backdrop_filter css) =
           fold (loop_body lines) [0..<i] [] @ [lines ! i]
             @ fold (loop_body lines) [Suc i..<length lines] [] \<and>
         (list_all (\<lambda>l. pattern_match l = None) lines \<longrightarrow> fix_backdrop_filter css = css) \<and>
         pattern_match (str ''color: red;'') = None \<and>
         fix_backdrop_filter (str ''color: red;'') = str ''color: red;'' \<and>
         pattern_match (str ''backdrop-filter /* comment */: blur(4px);'') = None \<and>
         fix_backdrop_filter (str ''backdrop-filter /* comment */: blur(4px);'')
           = str ''backdrop-filter /* comment */: blur(4px);''"
proof -
  have "chunk (if i > 0 then lines ! (i - 1) else []) (lines ! i) = [lines ! i]"
    using assms(3) by (simp add: chunk_def)
  with output_at[of i css] assms(2)
  have a: "str_split (fix_backdrop_filter css) =
           fold (loop_body lines) [0..<i] [] @ [lines ! i]
             @ fold (loop_body lines) [Suc i..<length lines] []"
    unfolding lines_def by simp
  have b: "list_all (\<lambda>l. pattern_match l = None) lines \<longrightarrow> fix_backdrop_filter css = css"
  proof
    assume "list_all (\<lambda>l. pattern_match l = None) lines"
    then have "scan [] (str_split css) = str_split css"
      unfolding lines_def list_all_iff by (intro scan_all_None) blast
    then show "fix_backdrop_filter css = css"
      by (simp add: fix_backdrop_filter_scan str_join_split)
  qed
  have c: "pattern_match (str ''color: red;'') = None" by code_simp
  have d: "fix_backdrop_filter (str ''color: red;'') = str ''color: red;''" by code_simp
  have e: "pattern_match (str ''backdrop-filter /* comment */: blur(4px);'') = None"
    by code_simp
  have f: "fix_backdrop_filter (str ''backdrop-filter /* comment */: blur(4px);'')
           = str ''backdrop-filter /* comment */: blur(4px);''"
    by code_simp
  from a b c d e f show ?thesis by blast
qed

theorem non_matching_line_passes_through_witness:
  "1 < length (str_split (str ''a {'' @ [10] @ str ''  color: red;'' @ [10] @ str ''}'')) \<and>
   pattern_match (str_split (str ''a {'' @ [10] @ str ''  color: red;'' @ [10] @ str ''}'') ! 1)
     = None \<and>
   list_all (\<lambda>l. pattern_match l = None)
     (str_split (str ''a {'' @ [10] @ str ''  color: red;'' @ [10] @ str ''}'')) \<and>
   str_split (fix_backdrop_filter (str ''a {'' @ [10] @ str ''  color: red;'' @ [10] @ str ''}''))
     = [str ''a {'', str ''  color: red;'', str ''}''] \<and>
   fix_backdrop_filter (str ''a {'' @ [10] @ str ''  color: red;'' @ [10] @ str ''}'')
     = str ''a {'' @ [10] @ str ''  color: red;'' @ [10] @ str ''}''"
proof -
  let ?css = "str ''a {'' @ [10] @ str ''  color: red;'' @ [10] @ str ''}''"
  have h1: "1 < length (str_split ?css)" by code_simp
  have h2: "pattern_match (str_split ?css ! 1) = None" by code_simp
  have h3: "list_all (\<lambda>l. pattern_match l = None) (str_split ?css)" by code_simp
  note t = non_matching_line_passes_through[OF h1 h2]
  have e: "fold (loop_body (str_split ?css)) [0..<1] [] @ [str_split ?css ! 1]
             @ fold (loop_body (str_split ?css)) [Suc 1..<length (str_split ?css)] []
           = [str ''a {'', str ''  color: red;'', str ''}'']"
    by code_simp
  from t[THEN conjunct1] e
  have a: "str_split (fix_backdrop_filter ?css) = [str ''a {'', str ''  color: red;'', str ''}'']"
    by (rule trans)
  from t[THEN conjunct2, THEN conjunct1] h3 have b: "fix_backdrop_filter ?css = ?css" by blast
  from h1 h2 h3 a b show ?thesis by blast
qed

section \<open>A stale prefix\<close>

text \<open>
  C8: for the two lines \<open>  -webkit-backdrop-filter: blur(3px);\<close> and
  \<open>  backdrop-filter: blur(5px);\<close> the patcher inserts
  \<open>  -webkit-backdrop-filter: blur(5px);\<close> immediately before the second one. The output
  has exactly three lines, and the stale prefix line is still the first of them.
\<close>

theorem stale_prefix_kept_and_new_prefix_inserted:
  "str_split (fix_backdrop_filter
       (str ''  -webkit-backdrop-filter: blur(3px);'' @ [10] @ str ''  backdrop-filter: blur(5px);''))
     = [str ''  -webkit-backdrop-filter: blur(3px);'',
        str ''  -webkit-backdrop-filter: blur(5px);'',
        str ''  backdrop-filter: blur(5px);''] \<and>
   fix_backdrop_filter
       (str ''  -webkit-backdrop-filter: blur(3px);'' @ [10] @ str ''  backdrop-filter: blur(5px);'')
     = str ''  -webkit-backdrop-filter: blur(3px);'' @ [10]
         @ str ''  -webkit-backdrop-filter: blur(5px);'' @ [10]
         @ str ''  backdrop-filter: blur(5px);''"
  by code_simp

section \<open>Lines the pattern excludes\<close>

text \<open>
  C9: a line with no leading whitespace never matches, because \<open>(\s+)\<close> needs at least
  one whitespace character: this holds for every line that starts with
  \<open>backdrop-filter:\<close> at column zero, and for every input line that is empty or starts
  with a character that is not whitespace. Such a line is passed through unchanged with
  no line inserted before it, as \<open>backdrop-filter: blur(5px);\<close> is.
\<close>

theorem no_leading_whitespace_never_matches:
  fixes css :: pystr and i :: nat
  defines "lines \<equiv> str_split css"
  assumes "i < length lines" and "lines ! i = [] \<or> \<not> is_space (hd (lines ! i))"
  shows "pattern_match (lines ! i) = None \<and>
         str_split (fix_backdrop_filter css) =
           fold (loop_body lines) [0..<i] [] @ [lines ! i]
             @ fold (loop_body lines) [Suc i..<length lines] [] \<and>
         pattern_match (str ''backdrop-filter:'' @ rest) = None \<and>
         fix_backdrop_filter (str ''backdrop-filter: blur(5px);'')
           = str ''backdrop-filter: blur(5px);''"
proof -
  from assms(3) have "takeWhile is_space (lines ! i) = []"
    by (cases "lines ! i") auto
  then have a: "pattern_match (lines ! i) = None" by (rule pattern_match_no_indent)
  then have "chunk (if i > 0 then lines ! (i - 1) else []) (lines ! i) = [lines ! i]"
    by (simp add: chunk_def)
  with output_at[of i css] assms(2)
  have b: "str_split (fix_backdrop_filter css) =
           fold (loop_body lines) [0..<i] [] @ [lines ! i]
             @ fold (loop_body lines) [Suc i..<length lines] []"
    unfolding lines_def by simp
  have "takeWhile is_space (str ''backdrop-filter:'' @ rest) = []"
    by (simp add: lit_unfold not_space_b)
  then have c: "pattern_match (str ''backdrop-filter:'' @ rest) = None"
    by (rule pattern_match_no_indent)
  have d: "fix_backdrop_filter (str ''backdrop-filter: blur(5px);'')
           = str ''backdrop-filter: blur(5px);''"
    by code_simp
  from a b c d show ?thesis by blast
qed

theorem no_leading_whitespace_never_matches_witness:
  "1 < length (str_split (str ''a {'' @ [10] @ str ''backdrop-filter: blur(5px);'' @ [10] @ str ''}'')) \<and>
   \<not> is_space (hd (str_split (str ''a {'' @ [10] @ str ''backdrop-filter: blur(5px);'' @ [10]
                       @ str ''}'') ! 1)) \<and>
   pattern_match (str_split (str ''a {'' @ [10] @ str ''backdrop-filter: blur(5px);'' @ [10]
                       @ str ''}'') ! 1) = None \<and>
   str_split (fix_backdrop_filter (str ''a {'' @ [10] @ str ''backdrop-filter: blur(5px);'' @ [10]
                       @ str ''}''))
     = [str ''a {'', str ''backdrop-filter: blur(5px);'', str ''}'']"
proof -
  let ?css = "str ''a {'' @ [10] @ str ''backdrop-filter: blur(5px);'' @ [10] @ str ''}''"
  have h1: "1 < length (str_split ?css)" by code_simp
  have h2: "\<not> is_space (hd (str_split ?css ! 1))" by code_simp
  then have h2': "str_split ?css ! 1 = [] \<or> \<not> is_space (hd (str_split ?css ! 1))" ..
  note t = no_leading_whitespace_never_matches[OF h1 h2']
  have e: "fold (loop_body (str_split ?css)) [0..<1] [] @ [str_split ?css ! 1]
             @ fold (loop_body (str_split ?css)) [Suc 1..<length (str_split ?css)] []
           = [str ''a {'', str ''backdrop-filter: blur(5px);'', str ''}'']"
    by code_simp
  from t[THEN conjunct2, THEN conjunct1] e
  have "str_split (fix_backdrop_filter ?css)
          = [str ''a {'', str ''backdrop-filter: blur(5px);'', str ''}'']"
    by (rule trans)
  with h1 h2 t[THEN conjunct1] show ?thesis by blast
qed

text \<open>
  C10: an input line that ends with a carriage return, as every line but the last of a
  CRLF-terminated file does after the split on the newline, never matches, because the
  pattern needs the semicolon to be the last character of the line. It is passed
  through unchanged with no line inserted before it.
\<close>

theorem carriage_return_never_matches:
  fixes css :: pystr and i :: nat
  defines "lines \<equiv> str_split css"
  assumes "i < length lines" and "lines ! i = body @ [13]"
  shows "pattern_match (lines ! i) = None \<and>
         str_split (fix_backdrop_filter css) =
           fold (loop_body lines) [0..<i] [] @ [lines ! i]
             @ fold (loop_body lines) [Suc i..<length lines] []"
proof -
  have a: "pattern_match (lines ! i) = None"
  proof (cases "pattern_match (lines ! i)")
    case None
    then show ?thesis .
  next
    case (Some g)
    obtain ind v where "g = (ind, v)" by (cases g)
    with Some have "pattern_match (lines ! i) = Some (ind, v)" by simp
    then have "last (lines ! i) = 59 \<or> last (lines ! i) = 10"
      by (rule pattern_match_last[THEN conjunct2])
    with assms(3) have False by simp
    then show ?thesis ..
  qed
  then have "chunk (if i > 0 then lines ! (i - 1) else []) (lines ! i) = [lines ! i]"
    by (simp add: chunk_def)
  with output_at[of i css] assms(2)
  have "str_split (fix_backdrop_filter css) =
           fold (loop_body lines) [0..<i] [] @ [lines ! i]
             @ fold (loop_body lines) [Suc i..<length lines] []"
    unfolding lines_def by simp
  with a show ?thesis ..
qed

theorem carriage_return_never_matches_witness:
  "1 < length (str_split (str ''a {'' @ [13, 10] @ str ''  backdrop-filter: blur(5px);'' @ [13, 10]
                       @ str ''}'' @ [13, 10])) \<and>
   str_split (str ''a {'' @ [13, 10] @ str ''  backdrop-filter: blur(5px);'' @ [13, 10]
                       @ str ''}'' @ [13, 10]) ! 1
     = str ''  backdrop-filter: blur(5px);'' @ [13] \<and>
   pattern_match (str_split (str ''a {'' @ [13, 10] @ str ''  backdrop-filter: blur(5px);''
                       @ [13, 10] @ str ''}'' @ [13, 10]) ! 1) = None \<and>
   str_split (fix_backdrop_filter (str ''a {'' @ [13, 10] @ str ''  backdrop-filter: blur(5px);''
                       @ [13, 10] @ str ''}'' @ [13, 10]))
     = [str ''a {'' @ [13], str ''  backdrop-filter: blur(5px);'' @ [13], str ''}'' @ [13], []]"
proof -
  let ?css = "str ''a {'' @ [13, 10] @ str ''  backdrop-filter: blur(5px);'' @ [13, 10]
                       @ str ''}'' @ [13, 10]"
  have h1: "1 < length (str_split ?css)" by code_simp
  have h2: "str_split ?css ! 1 = str ''  backdrop-filter: blur(5px);'' @ [13]" by code_simp
  note t = carriage_return_never_matches[OF h1 h2]
  have e: "fold (loop_body (str_split ?css)) [0..<1] [] @ [str_split ?css ! 1]
             @ fold (loop_body (str_split ?css)) [Suc 1..<length (str_split ?css)] []
           = [str ''a {'' @ [13], str ''  backdrop-filter: blur(5px);'' @ [13], str ''}'' @ [13], []]"
    by code_simp
  from t[THEN conjunct2] e
  have "str_split (fix_backdrop_filter ?css)
     = [str ''a {'' @ [13], str ''  backdrop-filter: blur(5px);'' @ [13], str ''}'' @ [13], []]"
    by (rule trans)
  with h1 h2 t[THEN conjunct1] show ?thesis by blast
qed

end
